theory Spec2Isabelle
  imports Complex_Main "HOL-Library.AList"
begin

section \<open>Secret Santa: the assignment generator and the draw handler of server.js\<close>

text \<open>
  A shallow embedding of \<^verbatim>\<open>server.js\<close>.

  Participant names are JavaScript strings, modelled as \<^typ>\<open>string\<close>.  A JavaScript
  object used as a dictionary (\<^verbatim>\<open>mapping\<close>, \<^verbatim>\<open>exclusions\<close>) is a map: reading a key
  that was never written yields \<^verbatim>\<open>undefined\<close>, modelled as \<^term>\<open>None\<close>.  This is exact for
  every key that is not a property name inherited from \<^verbatim>\<open>Object.prototype\<close>
  (\<^verbatim>\<open>constructor\<close>, \<^verbatim>\<open>toString\<close>, \<^verbatim>\<open>__proto__\<close>, ...); such participant names
  are outside the model.  The truthiness tests of the source (\<^verbatim>\<open>!recv\<close>,
  \<^verbatim>\<open>map[name] && ...\<close>) are kept: \<^verbatim>\<open>undefined\<close> and the empty string are falsy.

  \<^verbatim>\<open>Math.random()\<close> is an oracle: the source of randomness is a sequence \<open>rnd\<close> of
  reals, and a counter \<open>p\<close> says how many numbers have been consumed.  The documented
  contract of \<^verbatim>\<open>Math.random\<close> is \<open>0 \<le> u < 1\<close>; floating-point rounding of the product
  \<^verbatim>\<open>Math.random() * (i + 1)\<close> is not modelled.
\<close>

subsection \<open>Data\<close>

type_synonym name = string
type_synonym mapping = "name \<rightharpoonup> name"
type_synonym exclusions = "name \<rightharpoonup> name list"

text \<open>The only error the generator throws:
  \<^verbatim>\<open>throw new Error('Could not build assignments with the given exclusions.')\<close>.\<close>

datatype error = Error string

text \<open>The specification calls the failure of the generator after its last attempt
  \<open>Infeasible\<close>; in the source it is the error above.\<close>

definition Infeasible :: error where
  "Infeasible = Error ''Could not build assignments with the given exclusions.''"

text \<open>JavaScript truthiness of a value that is \<^verbatim>\<open>undefined\<close> or a string.\<close>

definition truthy :: "string option \<Rightarrow> bool" where
  "truthy v = (case v of None \<Rightarrow> False | Some s \<Rightarrow> s \<noteq> [])"

subsection \<open>shuffle\<close>

text \<open>\<^verbatim>\<open>[arr[i], arr[j]] = [arr[j], arr[i]]\<close> for indices inside the array.\<close>

definition swap_at :: "'a list \<Rightarrow> nat \<Rightarrow> nat \<Rightarrow> 'a list" where
  "swap_at arr i j = arr[i := arr ! j, j := arr ! i]"

text \<open>\<^verbatim>\<open>Math.floor(u * b)\<close> for the random number \<open>u\<close>.\<close>

definition rand_index :: "real \<Rightarrow> nat \<Rightarrow> nat" where
  "rand_index u b = nat \<lfloor>u * real b\<rfloor>"

definition valid_random :: "(nat \<Rightarrow> real) \<Rightarrow> bool" where
  "valid_random rnd = (\<forall>k. 0 \<le> rnd k \<and> rnd k < 1)"

text \<open>
  \<^verbatim>\<open>
  function shuffle(arr) {
    for (let i = arr.length - 1; i > 0; i -= 1) {
      const j = Math.floor(Math.random() * (i + 1));
      [arr[i], arr[j]] = [arr[j], arr[i]];
    }
    return arr;
  }
  \<close>
  The loop runs over the indices \<open>length arr - 1, ..., 1\<close>, given as a list.
\<close>

fun shuffle_loop :: "(nat \<Rightarrow> real) \<Rightarrow> nat list \<Rightarrow> 'a list \<Rightarrow> nat \<Rightarrow> 'a list \<times> nat" where
  "shuffle_loop rnd [] arr p = (arr, p)"
| "shuffle_loop rnd (i # is) arr p =
     (let j = rand_index (rnd p) (i + 1)
      in shuffle_loop rnd is (swap_at arr i j) (Suc p))"

definition shuffle :: "(nat \<Rightarrow> real) \<Rightarrow> 'a list \<Rightarrow> nat \<Rightarrow> 'a list \<times> nat" where
  "shuffle rnd arr p = shuffle_loop rnd (rev [1..<length arr]) arr p"

subsection \<open>validatePair, fixExclusions, validateAssignments\<close>

text \<open>\<^verbatim>\<open>exclusions[giver] || []\<close>: the exclusion list of a giver, empty when the
  object has no entry for the giver.\<close>

definition exclusions_of :: "exclusions \<Rightarrow> name \<Rightarrow> name list" where
  "exclusions_of excl giver = (case excl giver of None \<Rightarrow> [] | Some xs \<Rightarrow> xs)"

text \<open>\<^verbatim>\<open>[giver, ...(exclusions[giver] || [])]\<close>, the contents of the set \<^verbatim>\<open>banned\<close>.\<close>

definition banned :: "exclusions \<Rightarrow> name \<Rightarrow> name list" where
  "banned excl giver = giver # exclusions_of excl giver"

text \<open>
  \<^verbatim>\<open>
  function validatePair(giver, recv, exclusions) {
    if (giver === recv) return false;
    const banned = new Set([giver, ...(exclusions[giver] || [])]);
    return !banned.has(recv);
  }
  \<close>
\<close>

definition validatePair :: "name \<Rightarrow> name \<Rightarrow> exclusions \<Rightarrow> bool" where
  "validatePair giver recv excl =
     (if giver = recv then False else recv \<notin> set (banned excl giver))"

text \<open>The local function \<^verbatim>\<open>isBanned\<close> of \<^verbatim>\<open>fixExclusions\<close>; its second argument is
  read from the mapping and may be \<^verbatim>\<open>undefined\<close>, which no set of names contains.\<close>

definition isBanned :: "exclusions \<Rightarrow> name \<Rightarrow> name option \<Rightarrow> bool" where
  "isBanned excl giver recv =
     (case recv of None \<Rightarrow> False | Some r \<Rightarrow> r \<in> set (banned excl giver))"

text \<open>
  The inner loop of \<^verbatim>\<open>fixExclusions\<close>, over the indices \<open>j\<close>:
  \<^verbatim>\<open>
      for (let j = 0; j < names.length; j += 1) {
        if (i === j) continue;
        const other = names[j];
        const otherRecv = map[other];
        if (other === giver || otherRecv === giver) continue;
        if (!isBanned(giver, otherRecv) && !isBanned(other, recv)
            && giver !== otherRecv && other !== recv) {
          map[giver] = otherRecv;
          map[other] = recv;
          swapped = true;
          break;
        }
      }
  \<close>
  The result is the mapping after the swap, or \<open>None\<close> when \<^verbatim>\<open>swapped\<close> stays false.
\<close>

fun find_swap :: "mapping \<Rightarrow> name list \<Rightarrow> exclusions \<Rightarrow> nat \<Rightarrow> nat list \<Rightarrow> mapping option" where
  "find_swap m names excl i [] = None"
| "find_swap m names excl i (j # js) =
     (let giver = names ! i; recv = m giver in
      if i = j then find_swap m names excl i js
      else
        let other = names ! j; otherRecv = m other in
        if other = giver \<or> otherRecv = Some giver then find_swap m names excl i js
        else if \<not> isBanned excl giver otherRecv \<and> \<not> isBanned excl other recv
                \<and> Some giver \<noteq> otherRecv \<and> Some other \<noteq> recv
        then Some (m(giver := otherRecv, other := recv))
        else find_swap m names excl i js)"

text \<open>
  \<^verbatim>\<open>
  function fixExclusions(map, names, exclusions) {
    for (let i = 0; i < names.length; i += 1) {
      const giver = names[i];
      const recv = map[giver];
      if (isBanned(giver, recv) || giver === recv) {
        let swapped = false;
        ... inner loop ...
        if (!swapped) return false;
      }
    }
    return names.every((name) => map[name] && map[name] !== name);
  }
  \<close>
  The function mutates \<^verbatim>\<open>map\<close>; the model returns the boolean and the mapping as it is
  when the function returns.
\<close>

fun fix_loop :: "mapping \<Rightarrow> name list \<Rightarrow> exclusions \<Rightarrow> nat list \<Rightarrow> bool \<times> mapping" where
  "fix_loop m names excl [] =
     (list_all (\<lambda>name. truthy (m name) \<and> m name \<noteq> Some name) names, m)"
| "fix_loop m names excl (i # is) =
     (let giver = names ! i; recv = m giver in
      if isBanned excl giver recv \<or> Some giver = recv then
        (case find_swap m names excl i [0..<length names] of
           None \<Rightarrow> (False, m)
         | Some m' \<Rightarrow> fix_loop m' names excl is)
      else fix_loop m names excl is)"

definition fixExclusions :: "mapping \<Rightarrow> name list \<Rightarrow> exclusions \<Rightarrow> bool \<times> mapping" where
  "fixExclusions m names excl = fix_loop m names excl [0..<length names]"

text \<open>
  \<^verbatim>\<open>
  function validateAssignments(mapping, names, exclusions) {
    const seenRecipients = new Set();
    for (const giver of names) {
      const recv = mapping[giver];
      if (!recv || !names.includes(recv)) return false;
      if (giver === recv) return false;
      const banned = new Set([giver, ...(exclusions[giver] || [])]);
      if (banned.has(recv)) return false;
      if (seenRecipients.has(recv)) return false;
      seenRecipients.add(recv);
    }
    return seenRecipients.size === names.length;
  }
  \<close>
  The loop returns \<open>None\<close> for an early \<^verbatim>\<open>return false\<close>, and the set of seen recipients
  otherwise.
\<close>

fun validate_loop ::
  "mapping \<Rightarrow> name list \<Rightarrow> exclusions \<Rightarrow> name set \<Rightarrow> name list \<Rightarrow> name set option" where
  "validate_loop m names excl seen [] = Some seen"
| "validate_loop m names excl seen (giver # rest) =
     (case m giver of
        None \<Rightarrow> None
      | Some recv \<Rightarrow>
          if recv = [] \<or> recv \<notin> set names then None
          else if giver = recv then None
          else if recv \<in> set (banned excl giver) then None
          else if recv \<in> seen then None
          else validate_loop m names excl (insert recv seen) rest)"

definition validateAssignments :: "mapping \<Rightarrow> name list \<Rightarrow> exclusions \<Rightarrow> bool" where
  "validateAssignments m names excl =
     (case validate_loop m names excl {} names of
        None \<Rightarrow> False
      | Some seen \<Rightarrow> card seen = length names)"

subsection \<open>makeAssignments\<close>

text \<open>
  The first inner loop removes fixed points by a swap with the next position:
  \<^verbatim>\<open>
      for (let i = 0; i < names.length; i += 1) {
        if (shuffled[i] === names[i]) {
          const j = i === names.length - 1 ? 0 : i + 1;
          [shuffled[i], shuffled[j]] = [shuffled[j], shuffled[i]];
        }
      }
  \<close>
\<close>

fun unfix_loop :: "name list \<Rightarrow> nat list \<Rightarrow> name list \<Rightarrow> name list" where
  "unfix_loop names [] shuffled = shuffled"
| "unfix_loop names (i # is) shuffled =
     (if shuffled ! i = names ! i then
        (let j = (if i = length names - 1 then 0 else i + 1)
         in unfix_loop names is (swap_at shuffled i j))
      else unfix_loop names is shuffled)"

text \<open>
  The second inner loop fills the mapping and stops at the first invalid pair:
  \<^verbatim>\<open>
      const mapping = {};
      let ok = true;
      for (let i = 0; i < names.length; i += 1) {
        const giver = names[i];
        const recv = shuffled[i];
        mapping[giver] = recv;
        if (!validatePair(giver, recv, exclusions)) {
          ok = false;
          break;
        }
      }
  \<close>
  The model returns \<^verbatim>\<open>ok\<close> and the mapping as the loop leaves it.
\<close>

fun build_loop ::
  "name list \<Rightarrow> name list \<Rightarrow> exclusions \<Rightarrow> mapping \<Rightarrow> nat list \<Rightarrow> bool \<times> mapping" where
  "build_loop names shuffled excl m [] = (True, m)"
| "build_loop names shuffled excl m (i # is) =
     (let giver = names ! i; recv = shuffled ! i; m' = m(giver \<mapsto> recv) in
      if \<not> validatePair giver recv excl then (False, m')
      else build_loop names shuffled excl m' is)"

text \<open>
  The body of the attempt loop after the shuffle: \<open>Some mapping\<close> when the body reaches
  \<^verbatim>\<open>return mapping\<close>, \<open>None\<close> when it reaches \<^verbatim>\<open>continue\<close> or falls through.
  \<^verbatim>\<open>
      if (!ok) continue;
      if (fixExclusions(mapping, names, exclusions)
          && validateAssignments(mapping, names, exclusions)) {
        return mapping;
      }
  \<close>
\<close>

definition try_shuffled :: "name list \<Rightarrow> exclusions \<Rightarrow> name list \<Rightarrow> mapping option" where
  "try_shuffled names excl shuffled0 =
     (let shuffled = unfix_loop names [0..<length names] shuffled0;
          (ok, mapping) = build_loop names shuffled excl Map.empty [0..<length names]
      in if \<not> ok then None
         else
           (let (fixed, mapping') = fixExclusions mapping names excl
            in if fixed \<and> validateAssignments mapping' names excl then Some mapping'
               else None))"

text \<open>One attempt: \<^verbatim>\<open>const shuffled = shuffle([...names]);\<close> followed by the body.\<close>

definition attempt ::
  "(nat \<Rightarrow> real) \<Rightarrow> name list \<Rightarrow> exclusions \<Rightarrow> nat \<Rightarrow> mapping option \<times> nat" where
  "attempt rnd names excl p =
     (let (shuffled, p') = shuffle rnd names p
      in (try_shuffled names excl shuffled, p'))"

text \<open>
  \<^verbatim>\<open>
  function makeAssignments(names, exclusions) {
    for (let attempt = 0; attempt < 1000; attempt += 1) {
      ... body ...
    }
    throw new Error('Could not build assignments with the given exclusions.');
  }
  \<close>
  The result is the error or the mapping, together with the number of random numbers
  consumed so far.
\<close>

function makeAssignments_loop ::
  "(nat \<Rightarrow> real) \<Rightarrow> name list \<Rightarrow> exclusions \<Rightarrow> nat \<Rightarrow> nat \<Rightarrow> (error + mapping) \<times> nat" where
  "makeAssignments_loop rnd names excl k p =
     (if k < 1000 then
        (case attempt rnd names excl p of
           (Some mapping, p') \<Rightarrow> (Inr mapping, p')
         | (None, p') \<Rightarrow> makeAssignments_loop rnd names excl (k + 1) p')
      else (Inl Infeasible, p))"
  by pat_completeness auto
termination
  by (relation "measure (\<lambda>(rnd, names, excl, k, p). 1000 - k)") auto

declare makeAssignments_loop.simps [simp del]

definition makeAssignments ::
  "(nat \<Rightarrow> real) \<Rightarrow> name list \<Rightarrow> exclusions \<Rightarrow> nat \<Rightarrow> (error + mapping) \<times> nat" where
  "makeAssignments rnd names excl p = makeAssignments_loop rnd names excl 0 p"

subsection \<open>The generator without its repair pass\<close>

text \<open>
  The same algorithm with the call of \<^verbatim>\<open>fixExclusions\<close> removed from the body of the
  attempt loop, for the comparison with \<^const>\<open>makeAssignments\<close>:
  \<^verbatim>\<open>
      if (!ok) continue;
      if (validateAssignments(mapping, names, exclusions)) {
        return mapping;
      }
  \<close>
\<close>

definition try_shuffled_no_repair :: "name list \<Rightarrow> exclusions \<Rightarrow> name list \<Rightarrow> mapping option" where
  "try_shuffled_no_repair names excl shuffled0 =
     (let shuffled = unfix_loop names [0..<length names] shuffled0;
          (ok, mapping) = build_loop names shuffled excl Map.empty [0..<length names]
      in if \<not> ok then None
         else if validateAssignments mapping names excl then Some mapping
         else None)"

definition attempt_no_repair ::
  "(nat \<Rightarrow> real) \<Rightarrow> name list \<Rightarrow> exclusions \<Rightarrow> nat \<Rightarrow> mapping option \<times> nat" where
  "attempt_no_repair rnd names excl p =
     (let (shuffled, p') = shuffle rnd names p
      in (try_shuffled_no_repair names excl shuffled, p'))"

function makeAssignments_no_repair_loop ::
  "(nat \<Rightarrow> real) \<Rightarrow> name list \<Rightarrow> exclusions \<Rightarrow> nat \<Rightarrow> nat \<Rightarrow> (error + mapping) \<times> nat" where
  "makeAssignments_no_repair_loop rnd names excl k p =
     (if k < 1000 then
        (case attempt_no_repair rnd names excl p of
           (Some mapping, p') \<Rightarrow> (Inr mapping, p')
         | (None, p') \<Rightarrow> makeAssignments_no_repair_loop rnd names excl (k + 1) p')
      else (Inl Infeasible, p))"
  by pat_completeness auto
termination
  by (relation "measure (\<lambda>(rnd, names, excl, k, p). 1000 - k)") auto

declare makeAssignments_no_repair_loop.simps [simp del]

definition makeAssignments_no_repair ::
  "(nat \<Rightarrow> real) \<Rightarrow> name list \<Rightarrow> exclusions \<Rightarrow> nat \<Rightarrow> (error + mapping) \<times> nat" where
  "makeAssignments_no_repair rnd names excl p = makeAssignments_no_repair_loop rnd names excl 0 p"

subsection \<open>Auxiliary notions for the proofs\<close>

text \<open>The recipient a mapping gives to a giver that has one.\<close>

definition recv_of :: "mapping \<Rightarrow> name \<Rightarrow> name" where
  "recv_of m g = the (m g)"

text \<open>What one iteration of \<^const>\<open>validate_loop\<close> checks of a giver, apart from the
  set of seen recipients.\<close>

definition pair_ok :: "mapping \<Rightarrow> name list \<Rightarrow> exclusions \<Rightarrow> name \<Rightarrow> bool" where
  "pair_ok m names excl g =
     (case m g of None \<Rightarrow> False
      | Some r \<Rightarrow> r \<noteq> [] \<and> r \<in> set names \<and> validatePair g r excl)"

text \<open>The value of \<^verbatim>\<open>ok\<close> and of \<^verbatim>\<open>mapping\<close> after the two inner loops of an attempt.\<close>

definition candidate :: "name list \<Rightarrow> exclusions \<Rightarrow> name list \<Rightarrow> bool \<times> mapping" where
  "candidate names excl shuffled0 =
     build_loop names (unfix_loop names [0..<length names] shuffled0) excl Map.empty
       [0..<length names]"

text \<open>The mapping that sends every name of a roster to the next one, and the last name
  to the first: the hand-made cyclic shift that the specification validates.\<close>

definition cyclic_shift :: "name list \<Rightarrow> mapping" where
  "cyclic_shift names = map_of (zip names (rotate1 names))"

subsection \<open>The roster, the state and the draw request\<close>

text \<open>
  \<^verbatim>\<open>
  const PARTICIPANTS = ['Alice', 'Bob', 'Charlie', 'Danielle', 'Erin', 'Frank'];
  const EXCLUSIONS = { };
  \<close>
\<close>

definition PARTICIPANTS :: "name list" where
  "PARTICIPANTS = [''Alice'', ''Bob'', ''Charlie'', ''Danielle'', ''Erin'', ''Frank'']"


text \<open>
  The state object of the server.  \<^verbatim>\<open>revealed\<close> is an object whose entries are
  enumerated by \<^verbatim>\<open>Object.entries\<close>, so it is an association list in insertion order:
  writing an existing key keeps its place, writing a new key appends it.  (JavaScript
  enumerates keys that are array indices first; such names are outside the model.)
  An entry of \<^verbatim>\<open>history\<close> is \<^verbatim>\<open>{ giver, recipient, revealedAt }\<close>.
\<close>

record history_entry =
  entry_giver :: name
  entry_recipient :: name
  revealedAt :: string

record app_state =
  participants :: "name list"
  exclusions :: exclusions
  assignments :: mapping
  revealed :: "(name \<times> bool) list"
  history :: "history_entry list"
  createdAt :: string

text \<open>The object returned by \<^verbatim>\<open>summarizeState\<close>.\<close>

record summary =
  s_participants :: "name list"
  s_revealed :: "(name \<times> bool) list"
  remaining :: nat
  total :: nat
  takenRecipients :: "name list"
  s_createdAt :: string

text \<open>A response written by \<^verbatim>\<open>sendJson(res, statusCode, payload)\<close>: the payload is
  \<^verbatim>\<open>{ error }\<close> or \<^verbatim>\<open>{ giver, recipient, remaining, total, takenRecipients }\<close>.\<close>

datatype payload =
  ErrorPayload string
| DrawPayload name name nat nat "name list"

record response =
  statusCode :: nat
  payload :: payload

text \<open>
  What \<^verbatim>\<open>readJson(req)\<close> yields.  It rejects with one of three errors:
  \<^verbatim>\<open>
  reject(Object.assign(new Error('Payload too large'), { statusCode: 413 }));
  reject(Object.assign(new Error('Invalid JSON payload'), { statusCode: 400 }));
  reject(Object.assign(err, { statusCode: 400 }));
  \<close>
  or it resolves with the parsed body.  Of a parsed body the handler reads its
  truthiness and \<^verbatim>\<open>body.giver\<close>, which is kept when
  \<^verbatim>\<open>typeof body.giver === 'string'\<close>.
\<close>

datatype read_error = PayloadTooLarge | InvalidJSON | RequestError string

fun err_statusCode :: "read_error \<Rightarrow> nat" where
  "err_statusCode PayloadTooLarge = 413"
| "err_statusCode InvalidJSON = 400"
| "err_statusCode (RequestError msg) = 400"

fun err_message :: "read_error \<Rightarrow> string" where
  "err_message PayloadTooLarge = ''Payload too large''"
| "err_message InvalidJSON = ''Invalid JSON payload''"
| "err_message (RequestError msg) = msg"

datatype json_body = Falsy | Truthy "string option"

datatype read_result = Rejected read_error | Resolved json_body

text \<open>\<^verbatim>\<open>String.prototype.trim\<close> on the ASCII white space.\<close>

definition is_space :: "char \<Rightarrow> bool" where
  "is_space c = (c \<in> set [CHR 0x09, CHR 0x0A, CHR 0x0B, CHR 0x0C, CHR 0x0D, CHR 0x20])"

definition trim :: "string \<Rightarrow> string" where
  "trim s = rev (dropWhile is_space (rev (dropWhile is_space s)))"



text \<open>
  \<^verbatim>\<open>
  function getAvailableGivers(currentState) {
    return currentState.participants.filter((name) => !currentState.revealed[name]);
  }
  function getTakenRecipients(currentState) {
    const recipients = [];
    for (const [giver, wasRevealed] of Object.entries(currentState.revealed)) {
      if (wasRevealed) {
        const recipient = currentState.assignments[giver];
        if (recipient) recipients.push(recipient);
      }
    }
    return recipients;
  }
  \<close>
\<close>

definition getAvailableGivers :: "app_state \<Rightarrow> name list" where
  "getAvailableGivers currentState =
     filter (\<lambda>name. map_of (revealed currentState) name \<noteq> Some True)
       (participants currentState)"

definition getTakenRecipients :: "app_state \<Rightarrow> name list" where
  "getTakenRecipients currentState =
     concat (map (\<lambda>(giver, wasRevealed).
                if wasRevealed then
                  (case assignments currentState giver of
                     None \<Rightarrow> []
                   | Some recipient \<Rightarrow> if recipient \<noteq> [] then [recipient] else [])
                else [])
             (revealed currentState))"

definition summarizeState :: "app_state \<Rightarrow> summary" where
  "summarizeState st =
     \<lparr>s_participants = participants st, s_revealed = revealed st,
      remaining = length (getAvailableGivers st), total = length (participants st),
      takenRecipients = getTakenRecipients st, s_createdAt = createdAt st\<rparr>"

definition sendJson :: "nat \<Rightarrow> payload \<Rightarrow> response" where
  "sendJson sc pl = \<lparr>statusCode = sc, payload = pl\<rparr>"

text \<open>
  The branch of \<^verbatim>\<open>handleRequest\<close> for \<^verbatim>\<open>POST /api/draw\<close>, from the call of
  \<^verbatim>\<open>readJson\<close> on.  \<^verbatim>\<open>startServer\<close> loads the state before the server listens, so
  \<^verbatim>\<open>state\<close> is an object when a request arrives and \<^verbatim>\<open>ensureState\<close> does nothing.
  The arguments are the state, the outcome of \<^verbatim>\<open>readJson\<close>, the time
  \<^verbatim>\<open>new Date().toISOString()\<close> and the outcome of \<^verbatim>\<open>saveState\<close> on the state it is
  asked to write (\<open>False\<close> when it rejects).  The result is the response, if one
  is sent, and the state after the request; the request is handled without another
  request running in between.
  \<^verbatim>\<open>
      const body = await readJson(req).catch((err) => {
        const status = err && err.statusCode ? err.statusCode : 400;
        const message = err && err.message ? err.message : 'Invalid request body';
        sendJson(res, status, { error: message });
        return null;
      });
      if (!body) return;
      const giver = typeof body.giver === 'string' ? body.giver.trim() : '';
      ...
      state.revealed[giver] = true;
      state.history.push({ giver, recipient, revealedAt: new Date().toISOString() });
      try {
        await saveState();
      } catch (err) {
        state.revealed[giver] = false;
        state.history.pop();
        sendJson(res, 500, { error: 'Could not save the draw. Please try again.' });
        return;
      }
  \<close>
\<close>

definition handleRequest_draw ::
  "app_state \<Rightarrow> read_result \<Rightarrow> string \<Rightarrow> (app_state \<Rightarrow> bool) \<Rightarrow> response option \<times> app_state" where
  \<open>handleRequest_draw st rd now saveState =
     (case rd of
        Rejected err \<Rightarrow>
          (let status = (if err_statusCode err \<noteq> 0 then err_statusCode err else 400);
               message = (if err_message err \<noteq> [] then err_message err
                          else ''Invalid request body'')
           in (Some (sendJson status (ErrorPayload message)), st))
      | Resolved Falsy \<Rightarrow> (None, st)
      | Resolved (Truthy body_giver) \<Rightarrow>
          (let giver = (case body_giver of Some s \<Rightarrow> trim s | None \<Rightarrow> []) in
           if giver = [] then
             (Some (sendJson 400 (ErrorPayload ''Missing or invalid "giver" name.'')), st)
           else if giver \<notin> set (participants st) then
             (Some (sendJson 404 (ErrorPayload ''That name is not in the participant list.'')), st)
           else if map_of (revealed st) giver = Some True then
             (Some (sendJson 409 (ErrorPayload ''That person already drew a name.'')), st)
           else
             (case assignments st giver of
                None \<Rightarrow>
                  (Some (sendJson 500
                     (ErrorPayload ''No assignment found. Try resetting the draw.'')), st)
              | Some recipient \<Rightarrow>
                  if recipient = [] then
                    (Some (sendJson 500
                       (ErrorPayload ''No assignment found. Try resetting the draw.'')), st)
                  else
                    (let st1 = st\<lparr>revealed := AList.update giver True (revealed st),
                                  history := history st @
                                    [\<lparr>entry_giver = giver, entry_recipient = recipient,
                                      revealedAt = now\<rparr>]\<rparr>
                     in if \<not> saveState st1 then
                          (Some (sendJson 500
                             (ErrorPayload ''Could not save the draw. Please try again.'')),
                           st1\<lparr>revealed := AList.update giver False (revealed st1),
                               history := butlast (history st1)\<rparr>)
                        else
                          (let summary = summarizeState st1 in
                           (Some (sendJson 200
                              (DrawPayload giver recipient (remaining summary) (total summary)
                                 (takenRecipients summary))), st1))))))\<close>

text \<open>Every participant has a flag in \<^verbatim>\<open>revealed\<close>: \<^verbatim>\<open>buildFreshState\<close> writes one
  for every name, and \<^verbatim>\<open>normalizeState\<close> adds \<^verbatim>\<open>false\<close> where a loaded file has
  none.\<close>

definition revealed_total :: "app_state \<Rightarrow> bool" where
  "revealed_total st = (\<forall>name\<in>set (participants st). map_of (revealed st) name \<noteq> None)"

text \<open>
  A state file that passed \<^verbatim>\<open>isValidState\<close>: \<^verbatim>\<open>exclusions\<close>, \<^verbatim>\<open>history\<close> and
  \<^verbatim>\<open>createdAt\<close> may be missing, and a value of \<^verbatim>\<open>revealed\<close> may be something other
  than a boolean (\<open>None\<close>).
  \<^verbatim>\<open>
  function normalizeState(rawState) {
    const normalized = {
      participants: [...rawState.participants],
      exclusions: rawState.exclusions || {},
      assignments: { ...rawState.assignments },
      revealed: { ...rawState.revealed },
      history: Array.isArray(rawState.history) ? [...rawState.history] : [],
      createdAt: rawState.createdAt || new Date().toISOString()
    };
    for (const name of normalized.participants) {
      if (typeof normalized.revealed[name] !== 'boolean') {
        normalized.revealed[name] = false;
      }
    }
    // Drop stale entries
    for (const key of Object.keys(normalized.revealed)) {
      if (!normalized.participants.includes(key)) {
        delete normalized.revealed[key];
      }
    }
    return normalized;
  }
  \<close>
  After the two loops every remaining value of \<^verbatim>\<open>revealed\<close> is a boolean.
\<close>

record raw_state =
  raw_participants :: "name list"
  raw_exclusions :: "exclusions option"
  raw_assignments :: mapping
  raw_revealed :: "(name \<times> bool option) list"
  raw_history :: "history_entry list option"
  raw_createdAt :: "string option"

fun fill_revealed :: "name list \<Rightarrow> (name \<times> bool option) list \<Rightarrow> (name \<times> bool option) list" where
  "fill_revealed [] rv = rv"
| "fill_revealed (name # rest) rv =
     (case map_of rv name of
        Some (Some b) \<Rightarrow> fill_revealed rest rv
      | _ \<Rightarrow> fill_revealed rest (AList.update name (Some False) rv))"

definition drop_stale :: "name list \<Rightarrow> (name \<times> bool option) list \<Rightarrow> (name \<times> bool option) list" where
  "drop_stale ps rv = filter (\<lambda>(key, v). key \<in> set ps) rv"

definition normalizeState :: "raw_state \<Rightarrow> string \<Rightarrow> app_state" where
  "normalizeState rawState now =
     \<lparr>participants = raw_participants rawState,
      exclusions = (case raw_exclusions rawState of None \<Rightarrow> Map.empty | Some e \<Rightarrow> e),
      assignments = raw_assignments rawState,
      revealed = map (\<lambda>(key, v). (key, v = Some True))
                   (drop_stale (raw_participants rawState)
                      (fill_revealed (raw_participants rawState) (raw_revealed rawState))),
      history = (case raw_history rawState of None \<Rightarrow> [] | Some h \<Rightarrow> h),
      createdAt = (case raw_createdAt rawState of
                     None \<Rightarrow> now | Some c \<Rightarrow> if c \<noteq> [] then c else now)\<rparr>"

section \<open>Properties of the loops\<close>

subsection \<open>shuffle\<close>

lemma rand_index_less:
  assumes "0 \<le> u" "u < 1" "0 < b"
  shows "rand_index u b < b"
proof -
  have "u * real b < real b" using assms by simp
  then have "\<lfloor>u * real b\<rfloor> < int b" by (simp add: floor_less_iff)
  moreover have "0 \<le> \<lfloor>u * real b\<rfloor>" using assms by simp
  ultimately show ?thesis unfolding rand_index_def by linarith
qed

lemma swap_at_length [simp]: "length (swap_at arr i j) = length arr"
  by (simp add: swap_at_def)

lemma swap_at_set: "i < length arr \<Longrightarrow> j < length arr \<Longrightarrow> set (swap_at arr i j) = set arr"
  by (simp add: swap_at_def)

lemma swap_at_distinct:
  "i < length arr \<Longrightarrow> j < length arr \<Longrightarrow> distinct (swap_at arr i j) = distinct arr"
  by (simp add: swap_at_def)

lemma shuffle_loop_props:
  assumes "valid_random rnd" "\<forall>i\<in>set is. i < length arr"
  shows "length (fst (shuffle_loop rnd is arr p)) = length arr
       \<and> set (fst (shuffle_loop rnd is arr p)) = set arr
       \<and> distinct (fst (shuffle_loop rnd is arr p)) = distinct arr"
  using assms
proof (induction "is" arbitrary: arr p)
  case Nil
  then show ?case by simp
next
  case (Cons i "is")
  let ?j = "rand_index (rnd p) (i + 1)"
  have i: "i < length arr" using Cons.prems by simp
  have "?j < i + 1" using Cons.prems(1) by (intro rand_index_less) (auto simp: valid_random_def)
  then have j: "?j < length arr" using i by simp
  have "\<forall>k\<in>set is. k < length (swap_at arr i ?j)" using Cons.prems by simp
  from Cons.IH[OF Cons.prems(1) this, of "Suc p"] swap_at_set[OF i j] swap_at_distinct[OF i j]
  show ?case by (simp add: Let_def)
qed

lemma shuffle_loop_pos: "snd (shuffle_loop rnd is arr p) = p + length is"
  by (induction "is" arbitrary: arr p) (simp_all add: Let_def)

lemma shuffle_props:
  assumes "valid_random rnd"
  shows "length (fst (shuffle rnd arr p)) = length arr"
    and "set (fst (shuffle rnd arr p)) = set arr"
    and "distinct (fst (shuffle rnd arr p)) = distinct arr"
  using shuffle_loop_props[OF assms, of "rev [1..<length arr]" arr p]
  by (simp_all add: shuffle_def)

lemma shuffle_pos: "snd (shuffle rnd arr p) = p + (length arr - 1)"
  by (simp add: shuffle_def shuffle_loop_pos)

subsection \<open>validateAssignments, fixExclusions and the mapping loop\<close>

lemma validate_loop_Some:
  "validate_loop m names excl seen gs = Some seen' \<longleftrightarrow>
     (\<forall>g\<in>set gs. pair_ok m names excl g) \<and> distinct (map (recv_of m) gs)
     \<and> recv_of m ` set gs \<inter> seen = {} \<and> seen' = seen \<union> recv_of m ` set gs"
proof (induction gs arbitrary: seen)
  case Nil
  then show ?case by auto
next
  case (Cons g gs)
  show ?case
  proof (cases "m g")
    case None
    then show ?thesis by (simp add: pair_ok_def)
  next
    case (Some r)
    show ?thesis
    proof (cases "r \<noteq> [] \<and> r \<in> set names \<and> validatePair g r excl \<and> r \<notin> seen")
      case True
      then have "validate_loop m names excl seen (g # gs) = validate_loop m names excl (insert r seen) gs"
        using Some by (auto simp: validatePair_def)
      then show ?thesis using True Some Cons.IH[of "insert r seen"]
        by (auto simp: pair_ok_def recv_of_def)
    next
      case False
      then have "validate_loop m names excl seen (g # gs) = None"
        using Some by (auto simp: validatePair_def)
      then show ?thesis using False Some by (auto simp: pair_ok_def recv_of_def)
    qed
  qed
qed

lemma validateAssignments_iff:
  "validateAssignments m names excl \<longleftrightarrow>
     (\<forall>g\<in>set names. pair_ok m names excl g) \<and> distinct (map (recv_of m) names)"
proof -
  have card: "distinct (map (recv_of m) names) \<Longrightarrow> card (recv_of m ` set names) = length names"
    using distinct_card[of "map (recv_of m) names"] by simp
  show ?thesis
  proof (cases "validate_loop m names excl {} names")
    case None
    then show ?thesis using validate_loop_Some[of m names excl "{}" names]
      by (auto simp: validateAssignments_def)
  next
    case (Some s)
    then show ?thesis using validate_loop_Some[of m names excl "{}" names s] card
      by (auto simp: validateAssignments_def)
  qed
qed


lemma validateAssignments_image:
  assumes "validateAssignments m names excl"
  shows "recv_of m ` set names = set names"
proof -
  have d: "distinct (map (recv_of m) names)" and ok: "\<forall>g\<in>set names. pair_ok m names excl g"
    using assms by (auto simp: validateAssignments_iff)
  have sub: "recv_of m ` set names \<subseteq> set names"
    using ok by (auto simp: pair_ok_def recv_of_def split: option.splits)
  have "card (recv_of m ` set names) = length names"
    using distinct_card[OF d] by simp
  moreover have "card (set names) \<le> length names" by (rule card_length)
  ultimately have "card (set names) \<le> card (recv_of m ` set names)" by simp
  then show ?thesis using sub by (simp add: card_seteq)
qed

lemma fix_loop_valid:
  assumes "\<forall>i\<in>set is. \<exists>r. m (names ! i) = Some r \<and> validatePair (names ! i) r excl"
  shows "fix_loop m names excl is =
           (list_all (\<lambda>name. truthy (m name) \<and> m name \<noteq> Some name) names, m)"
  using assms
proof (induction "is")
  case Nil
  then show ?case by simp
next
  case (Cons i "is")
  then obtain r where r: "m (names ! i) = Some r" "validatePair (names ! i) r excl" by auto
  then have "\<not> isBanned excl (names ! i) (m (names ! i))" "Some (names ! i) \<noteq> m (names ! i)"
    by (auto simp: isBanned_def validatePair_def split: if_splits)
  then show ?case using Cons by (simp add: Let_def)
qed

lemma fixExclusions_valid:
  assumes "\<forall>g\<in>set names. \<exists>r. m g = Some r \<and> validatePair g r excl"
  shows "fixExclusions m names excl =
           (list_all (\<lambda>name. truthy (m name) \<and> m name \<noteq> Some name) names, m)"
  unfolding fixExclusions_def using assms by (intro fix_loop_valid) auto

lemma build_loop_True:
  assumes "build_loop names shuffled excl m is = (True, m')"
    and "\<forall>g r. m g = Some r \<longrightarrow> validatePair g r excl"
  shows "(\<forall>g r. m' g = Some r \<longrightarrow> validatePair g r excl)
       \<and> dom m' = dom m \<union> (\<lambda>i. names ! i) ` set is"
  using assms
proof (induction "is" arbitrary: m)
  case Nil
  then show ?case by simp
next
  case (Cons i "is")
  let ?m1 = "m(names ! i \<mapsto> shuffled ! i)"
  have v: "validatePair (names ! i) (shuffled ! i) excl"
    using Cons.prems(1) by (auto simp: Let_def split: if_splits)
  then have b: "build_loop names shuffled excl ?m1 is = (True, m')"
    using Cons.prems(1) by (simp add: Let_def)
  have "\<forall>g r. ?m1 g = Some r \<longrightarrow> validatePair g r excl"
    using v Cons.prems(2) by auto
  from Cons.IH[OF b this] show ?case by auto
qed


subsection \<open>Removal of fixed points\<close>


lemma unfix_loop_length [simp]: "length (unfix_loop names is sh) = length sh"
  by (induction "is" arbitrary: sh) (simp_all add: Let_def)

lemma unfix_loop_set:
  assumes "\<forall>i\<in>set is. i < length names" "length sh = length names"
  shows "set (unfix_loop names is sh) = set sh"
  using assms
proof (induction "is" arbitrary: sh)
  case Nil
  then show ?case by simp
next
  case (Cons i "is")
  let ?j = "if i = length names - 1 then 0 else i + 1"
  have i: "i < length sh" using Cons.prems by simp
  then have j: "?j < length sh" using Cons.prems by auto
  have "set (unfix_loop names is (swap_at sh i ?j)) = set (swap_at sh i ?j)"
    using Cons.prems by (intro Cons.IH) auto
  moreover have "set (unfix_loop names is sh) = set sh"
    using Cons.prems by (intro Cons.IH) auto
  ultimately show ?case using swap_at_set[OF i j] by (simp add: Let_def)
qed





subsection \<open>One attempt and the attempt loop\<close>

lemma nth_image_upt: "(\<lambda>i. names ! i) ` set [0..<length names] = set names"
proof -
  have "set (map (\<lambda>i. names ! i) [0..<length names]) = set names"
    by (simp only: map_nth)
  then show ?thesis by (simp only: set_map)
qed

lemma build_loop_pairs:
  "build_loop names shuffled excl m is = (True, m') \<Longrightarrow>
     \<forall>i\<in>set is. validatePair (names ! i) (shuffled ! i) excl"
proof (induction "is" arbitrary: m)
  case Nil
  then show ?case by simp
next
  case (Cons i "is")
  then show ?case by (auto simp: Let_def split: if_splits)
qed

lemma build_loop_candidate:
  assumes "build_loop names shuffled excl Map.empty [0..<length names] = (True, m)"
  shows "\<forall>g\<in>set names. \<exists>r. m g = Some r \<and> validatePair g r excl" and "dom m = set names"
proof -
  from build_loop_True[OF assms] have
    v: "\<forall>g r. m g = Some r \<longrightarrow> validatePair g r excl" and
    d: "dom m = (\<lambda>i. names ! i) ` set [0..<length names]"
    by simp_all
  show "dom m = set names" using d by (simp only: nth_image_upt)
  then show "\<forall>g\<in>set names. \<exists>r. m g = Some r \<and> validatePair g r excl"
    using v by (metis domD)
qed

lemma validate_implies_fixed:
  assumes "validateAssignments m names excl"
  shows "list_all (\<lambda>name. truthy (m name) \<and> m name \<noteq> Some name) names"
  using assms
  by (auto simp: validateAssignments_iff list_all_iff pair_ok_def truthy_def validatePair_def
           split: option.splits if_splits)

lemma try_shuffled_eq:
  "try_shuffled names excl shuffled0 =
     (if fst (candidate names excl shuffled0)
         \<and> validateAssignments (snd (candidate names excl shuffled0)) names excl
      then Some (snd (candidate names excl shuffled0)) else None)"
proof (cases "candidate names excl shuffled0")
  case (Pair ok m)
  show ?thesis
  proof (cases ok)
    case False
    then show ?thesis using Pair by (simp add: try_shuffled_def candidate_def Let_def)
  next
    case True
    then have b: "build_loop names (unfix_loop names [0..<length names] shuffled0) excl
                   Map.empty [0..<length names] = (True, m)"
      using Pair by (simp add: candidate_def)
    have fx: "fixExclusions m names excl =
                (list_all (\<lambda>name. truthy (m name) \<and> m name \<noteq> Some name) names, m)"
      by (rule fixExclusions_valid) (rule build_loop_candidate(1)[OF b])
    show ?thesis
      using b fx Pair True validate_implies_fixed[of m names excl]
      by (auto simp: try_shuffled_def Let_def)
  qed
qed

lemma try_shuffled_Some:
  assumes "try_shuffled names excl shuffled0 = Some m"
  shows "validateAssignments m names excl" and "dom m = set names"
proof -
  from assms have c: "fst (candidate names excl shuffled0)"
    "validateAssignments (snd (candidate names excl shuffled0)) names excl"
    "m = snd (candidate names excl shuffled0)"
    by (auto simp: try_shuffled_eq split: if_splits)
  then have "build_loop names (unfix_loop names [0..<length names] shuffled0) excl
                   Map.empty [0..<length names] = (True, m)"
    by (simp add: candidate_def prod_eq_iff)
  from build_loop_candidate(2)[OF this] show "dom m = set names" .
  show "validateAssignments m names excl" using c by simp
qed

lemma attempt_fst: "fst (attempt rnd names excl p) = try_shuffled names excl (fst (shuffle rnd names p))"
  by (simp add: attempt_def split_beta)

lemma attempt_snd: "snd (attempt rnd names excl p) = p + (length names - 1)"
  by (simp add: attempt_def split_beta shuffle_pos)

lemma makeAssignments_loop_run:
  "k \<le> 1000 \<Longrightarrow>
   (case fst (makeAssignments_loop rnd names excl k p) of
      Inr m \<Rightarrow>
        (\<exists>a. k + a < 1000
           \<and> (\<forall>i<a. fst (attempt rnd names excl (p + i * (length names - 1))) = None)
           \<and> fst (attempt rnd names excl (p + a * (length names - 1))) = Some m
           \<and> snd (makeAssignments_loop rnd names excl k p) = p + (a + 1) * (length names - 1))
    | Inl e \<Rightarrow>
        e = Infeasible
        \<and> (\<forall>i. k + i < 1000 \<longrightarrow> fst (attempt rnd names excl (p + i * (length names - 1))) = None)
        \<and> snd (makeAssignments_loop rnd names excl k p) = p + (1000 - k) * (length names - 1))"
proof (induction rnd names excl k p rule: makeAssignments_loop.induct)
  case (1 rnd names excl k p)
  let ?n = "length names - 1"
  show ?case
  proof (cases "k < 1000")
    case False
    then have "makeAssignments_loop rnd names excl k p = (Inl Infeasible, p)"
      by (simp add: makeAssignments_loop.simps)
    then show ?thesis using False "1.prems" by simp
  next
    case True
    obtain r p' where a: "attempt rnd names excl p = (r, p')" by (cases "attempt rnd names excl p")
    have p': "p' = p + ?n" using attempt_snd[of rnd names excl p] a by simp
    show ?thesis
    proof (cases r)
      case (Some m)
      then have "makeAssignments_loop rnd names excl k p = (Inr m, p')"
        using True a by (simp add: makeAssignments_loop.simps)
      moreover have "k + 0 < 1000 \<and> (\<forall>i<(0::nat). fst (attempt rnd names excl (p + i * ?n)) = None)
         \<and> fst (attempt rnd names excl (p + 0 * ?n)) = Some m \<and> p' = p + (0 + 1) * ?n"
        using True a Some p' by simp
      ultimately show ?thesis by (simp only: fst_conv snd_conv sum.case) blast
    next
      case None
      then have step: "makeAssignments_loop rnd names excl k p
                     = makeAssignments_loop rnd names excl (k + 1) p'"
        using True a by (simp add: makeAssignments_loop.simps)
      have ih: "case fst (makeAssignments_loop rnd names excl (k + 1) p') of
          Inr m \<Rightarrow>
            (\<exists>a. k + 1 + a < 1000
               \<and> (\<forall>i<a. fst (attempt rnd names excl (p' + i * ?n)) = None)
               \<and> fst (attempt rnd names excl (p' + a * ?n)) = Some m
               \<and> snd (makeAssignments_loop rnd names excl (k + 1) p') = p' + (a + 1) * ?n)
        | Inl e \<Rightarrow>
            e = Infeasible
            \<and> (\<forall>i. k + 1 + i < 1000 \<longrightarrow> fst (attempt rnd names excl (p' + i * ?n)) = None)
            \<and> snd (makeAssignments_loop rnd names excl (k + 1) p') = p' + (1000 - (k + 1)) * ?n"
        using "1.IH"[OF True a[symmetric] None] True by simp
      have a0: "fst (attempt rnd names excl p) = None" using a None by simp
      have shift: "\<And>i. p' + i * ?n = p + (Suc i) * ?n" using p' by simp
      show ?thesis
      proof (cases "fst (makeAssignments_loop rnd names excl (k + 1) p')")
        case (Inr m)
        with ih obtain a where a:
          "k + 1 + a < 1000"
          "\<forall>i<a. fst (attempt rnd names excl (p + Suc i * ?n)) = None"
          "fst (attempt rnd names excl (p + Suc a * ?n)) = Some m"
          "snd (makeAssignments_loop rnd names excl (k + 1) p') = p + Suc (a + 1) * ?n"
          unfolding shift by auto
        have "\<forall>i<Suc a. fst (attempt rnd names excl (p + i * ?n)) = None"
        proof (intro allI impI)
          fix i assume "i < Suc a"
          then show "fst (attempt rnd names excl (p + i * ?n)) = None"
            using a(2) a0 by (cases i) auto
        qed
        then have "k + Suc a < 1000
           \<and> (\<forall>i<Suc a. fst (attempt rnd names excl (p + i * ?n)) = None)
           \<and> fst (attempt rnd names excl (p + Suc a * ?n)) = Some m
           \<and> snd (makeAssignments_loop rnd names excl k p) = p + (Suc a + 1) * ?n"
          using a step by simp
        then show ?thesis unfolding step[symmetric] using Inr step
          by (simp only: sum.case) blast
      next
        case (Inl e)
        with ih have e:
          "e = Infeasible"
          "\<forall>i. k + 1 + i < 1000 \<longrightarrow> fst (attempt rnd names excl (p + Suc i * ?n)) = None"
          "snd (makeAssignments_loop rnd names excl (k + 1) p') = p + Suc (1000 - (k + 1)) * ?n"
          unfolding shift by auto
        have "\<forall>i. k + i < 1000 \<longrightarrow> fst (attempt rnd names excl (p + i * ?n)) = None"
        proof (intro allI impI)
          fix i assume "k + i < 1000"
          then show "fst (attempt rnd names excl (p + i * ?n)) = None"
            using e(2) a0 by (cases i) auto
        qed
        moreover have "Suc (1000 - (k + 1)) = 1000 - k" using True by simp
        ultimately show ?thesis using e Inl step by simp
      qed
    qed
  qed
qed

subsection \<open>Results of the attempt loop\<close>

lemma makeAssignments_Inr_attempt:
  assumes "fst (makeAssignments rnd names excl p) = Inr m"
  shows "\<exists>q. fst (attempt rnd names excl q) = Some m"
  using makeAssignments_loop_run[of 0 rnd names excl p] assms
  by (auto simp: makeAssignments_def)

lemma makeAssignments_all_fail:
  assumes "\<And>q. fst (attempt rnd names excl q) = None"
  shows "makeAssignments rnd names excl p = (Inl Infeasible, p + 1000 * (length names - 1))"
proof (cases "fst (makeAssignments rnd names excl p)")
  case (Inr m)
  from makeAssignments_Inr_attempt[OF this] assms show ?thesis by simp
next
  case (Inl e)
  then show ?thesis
    using makeAssignments_loop_run[of 0 rnd names excl p]
    by (simp add: makeAssignments_def prod_eq_iff)
qed

lemma makeAssignments_first:
  assumes "fst (attempt rnd names excl p) = Some m"
  shows "makeAssignments rnd names excl p = (Inr m, p + (length names - 1))"
proof -
  have "attempt rnd names excl p = (Some m, p + (length names - 1))"
    using assms attempt_snd[of rnd names excl p] by (simp add: prod_eq_iff)
  then show ?thesis
    by (simp add: makeAssignments_def makeAssignments_loop.simps[of rnd names excl 0 p])
qed

lemma validatePair_iff:
  "validatePair g r excl \<longleftrightarrow> r \<noteq> g \<and> r \<notin> set (exclusions_of excl g)"
  by (auto simp: validatePair_def banned_def)

section \<open>The claims about the generator\<close>

text \<open>
  C1.  Every mapping that \<^const>\<open>makeAssignments\<close> returns is a derangement of the roster
  that respects the exclusions: the roster has no duplicate, the givers of the mapping
  are exactly the participants, its recipients are exactly the participants, no two
  givers share a recipient, no participant receives its own name, and the recipient of
  a participant is not in the exclusion list of that participant.  This holds for
  every roster, every exclusion object, every sequence of random numbers and every
  position in it.
\<close>

theorem makeAssignments_returns_derangement:
  assumes "fst (makeAssignments rnd names excl p) = Inr m"
  shows "distinct names \<and> dom m = set names \<and> ran m = set names \<and> inj_on m (set names)
       \<and> (\<forall>g\<in>set names. \<exists>r. m g = Some r \<and> r \<noteq> g \<and> r \<notin> set (exclusions_of excl g))"
proof -
  from makeAssignments_Inr_attempt[OF assms] obtain q where
    "try_shuffled names excl (fst (shuffle rnd names q)) = Some m"
    by (auto simp: attempt_fst)
  from try_shuffled_Some[OF this] have v: "validateAssignments m names excl"
    and d: "dom m = set names" by simp_all
  have ok: "\<forall>g\<in>set names. pair_ok m names excl g" and dm: "distinct (map (recv_of m) names)"
    using v by (simp_all add: validateAssignments_iff)
  have some: "m g = Some (recv_of m g)" if "g \<in> set names" for g
  proof -
    from that d have "g \<in> dom m" by simp
    then obtain r where "m g = Some r" by (auto simp: dom_def)
    then show ?thesis by (simp add: recv_of_def)
  qed
  have dn: "distinct names" and inj: "inj_on (recv_of m) (set names)"
    using dm by (simp_all add: distinct_map)
  have "inj_on m (set names)"
  proof (rule inj_onI)
    fix x y assume "x \<in> set names" "y \<in> set names" "m x = m y"
    then have "recv_of m x = recv_of m y" by (simp add: recv_of_def)
    then show "x = y" using inj \<open>x \<in> set names\<close> \<open>y \<in> set names\<close> by (simp add: inj_on_def)
  qed
  moreover have "ran m = set names"
  proof -
    have "ran m = recv_of m ` set names"
    proof (rule set_eqI)
      fix r
      show "r \<in> ran m \<longleftrightarrow> r \<in> recv_of m ` set names"
      proof
        assume "r \<in> ran m"
        then obtain g where g: "m g = Some r" by (auto simp: ran_def)
        then have "g \<in> set names" using d by auto
        then show "r \<in> recv_of m ` set names" using g by (force simp: recv_of_def)
      next
        assume "r \<in> recv_of m ` set names"
        then obtain g where "g \<in> set names" "r = recv_of m g" by auto
        then show "r \<in> ran m" using some[of g] by (auto simp: ran_def)
      qed
    qed
    then show ?thesis using validateAssignments_image[OF v] by simp
  qed
  moreover have "\<forall>g\<in>set names. \<exists>r. m g = Some r \<and> r \<noteq> g \<and> r \<notin> set (exclusions_of excl g)"
    using ok by (auto simp: pair_ok_def validatePair_iff split: option.splits)
  ultimately show ?thesis using dn d by simp
qed

lemma attempt_abc:
  "fst (attempt (\<lambda>_. 0) [''a'', ''b'', ''c''] Map.empty q)
     = Some [''a'' \<mapsto> ''b'', ''b'' \<mapsto> ''c'', ''c'' \<mapsto> ''a'']"
  by (simp add: attempt_def shuffle_def rand_index_def swap_at_def try_shuffled_def upt_rec
        validatePair_def banned_def exclusions_of_def fixExclusions_def isBanned_def
        truthy_def validateAssignments_def Let_def)

theorem makeAssignments_returns_derangement_witness:
  "fst (makeAssignments (\<lambda>_. 0) [''a'', ''b'', ''c''] Map.empty 0)
     = Inr [''a'' \<mapsto> ''b'', ''b'' \<mapsto> ''c'', ''c'' \<mapsto> ''a'']
   \<and> distinct [''a'', ''b'', ''c'']
   \<and> dom [''a'' \<mapsto> ''b'', ''b'' \<mapsto> ''c'', ''c'' \<mapsto> ''a''] = set [''a'', ''b'', ''c'']
   \<and> ran [''a'' \<mapsto> ''b'', ''b'' \<mapsto> ''c'', ''c'' \<mapsto> ''a''] = set [''a'', ''b'', ''c'']"
proof -
  have e: "fst (makeAssignments (\<lambda>_. 0) [''a'', ''b'', ''c''] Map.empty 0)
     = Inr [''a'' \<mapsto> ''b'', ''b'' \<mapsto> ''c'', ''c'' \<mapsto> ''a'']"
    using makeAssignments_first[OF attempt_abc] by simp
  from makeAssignments_returns_derangement[OF e] e show ?thesis by blast
qed


lemma attempt_single: "fst (attempt rnd [a] excl q) = None"
  by (simp add: attempt_def shuffle_def try_shuffled_def swap_at_def validatePair_def Let_def)





lemma attempt_two_excluded:
  assumes "valid_random rnd" "b \<in> set (exclusions_of excl a)"
  shows "fst (attempt rnd [a, b] excl q) = None"
proof -
  define names where "names = [a, b]"
  define sh0 where "sh0 = fst (shuffle rnd names q)"
  define sh where "sh = unfix_loop names [0..<length names] sh0"
  have len0: "length sh0 = length names" and set0: "set sh0 = set names"
    using shuffle_props(1,2)[OF assms(1), of names q] by (simp_all add: sh0_def)
  have "set sh = set sh0"
    unfolding sh_def by (rule unfix_loop_set) (use len0 in auto)
  moreover have "length sh = 2" using len0 by (simp add: sh_def names_def)
  ultimately have "sh ! 0 \<in> {a, b}" using set0 nth_mem[of 0 sh] by (auto simp: names_def)
  then have "\<not> validatePair a (sh ! 0) excl"
    using assms(2) by (auto simp: validatePair_def banned_def)
  moreover have "candidate names excl sh0 = build_loop names sh excl Map.empty [0, 1]"
    by (simp add: candidate_def sh_def names_def upt_rec)
  ultimately have "\<not> fst (candidate names excl sh0)"
    by (simp add: Let_def names_def)
  then show ?thesis by (simp add: attempt_fst try_shuffled_eq sh0_def names_def)
qed

text \<open>
  C4.  For a roster of two participants each of which excludes the other, every attempt
  is rejected, whatever numbers in \<open>[0, 1)\<close> the random source yields, and the generator
  fails with \<^const>\<open>Infeasible\<close> after its 1000 attempts, each of which draws one random
  number; it never returns a mapping.
\<close>
theorem makeAssignments_two_mutually_excluded:
  assumes "valid_random rnd"
    and "b \<in> set (exclusions_of excl a)" and "a \<in> set (exclusions_of excl b)"
  shows "makeAssignments rnd [a, b] excl p = (Inl Infeasible, p + 1000)
       \<and> (\<forall>q. fst (attempt rnd [a, b] excl q) = None)"
proof -
  have "\<forall>q. fst (attempt rnd [a, b] excl q) = None"
    using attempt_two_excluded[OF assms(1,2)] by simp
  then show ?thesis
    using makeAssignments_all_fail[of rnd "[a, b]" excl p] by simp
qed

theorem makeAssignments_two_mutually_excluded_witness:
  "valid_random (\<lambda>_. 0)
   \<and> ''Bob'' \<in> set (exclusions_of [''Alice'' \<mapsto> [''Bob''], ''Bob'' \<mapsto> [''Alice'']] ''Alice'')
   \<and> ''Alice'' \<in> set (exclusions_of [''Alice'' \<mapsto> [''Bob''], ''Bob'' \<mapsto> [''Alice'']] ''Bob'')
   \<and> makeAssignments (\<lambda>_. 0) [''Alice'', ''Bob'']
        [''Alice'' \<mapsto> [''Bob''], ''Bob'' \<mapsto> [''Alice'']] 0 = (Inl Infeasible, 1000)"
proof -
  have v: "valid_random (\<lambda>_. 0)" by (simp add: valid_random_def)
  have b: "''Bob'' \<in> set (exclusions_of [''Alice'' \<mapsto> [''Bob''], ''Bob'' \<mapsto> [''Alice'']] ''Alice'')"
    by (simp add: exclusions_of_def)
  have a: "''Alice'' \<in> set (exclusions_of [''Alice'' \<mapsto> [''Bob''], ''Bob'' \<mapsto> [''Alice'']] ''Bob'')"
    by (simp add: exclusions_of_def)
  from makeAssignments_two_mutually_excluded[OF v b a, of 0] v a b show ?thesis by simp
qed

text \<open>
  C5.  The generator is a total function of the roster, the exclusions and the random
  sequence, and it makes at most 1000 attempts: either it returns the mapping of the
  first successful attempt, which is one of the attempts \<open>0, ..., 999\<close>, or all 1000
  attempts fail and it fails with \<^const>\<open>Infeasible\<close>.  Attempt \<open>i\<close> starts at position
  \<open>p + i * (length names - 1)\<close> of the random sequence, and the generator consumes
  at most \<open>1000 * (length names - 1)\<close> random numbers.
\<close>
theorem makeAssignments_attempt_budget:
  "case fst (makeAssignments rnd names excl p) of
      Inr m \<Rightarrow>
        (\<exists>a<1000.
           (\<forall>i<a. fst (attempt rnd names excl (p + i * (length names - 1))) = None)
           \<and> fst (attempt rnd names excl (p + a * (length names - 1))) = Some m
           \<and> snd (makeAssignments rnd names excl p) = p + (a + 1) * (length names - 1))
    | Inl e \<Rightarrow>
        e = Infeasible
        \<and> (\<forall>i<1000. fst (attempt rnd names excl (p + i * (length names - 1))) = None)
        \<and> snd (makeAssignments rnd names excl p) = p + 1000 * (length names - 1)"
  using makeAssignments_loop_run[of 0 rnd names excl p]
  by (simp add: makeAssignments_def split: sum.splits)

theorem makeAssignments_attempt_budget_witness:
  "fst (makeAssignments (\<lambda>_. 0) [''Alice''] Map.empty 0) = Inl Infeasible
   \<and> snd (makeAssignments (\<lambda>_. 0) [''Alice''] Map.empty 0) = 0
   \<and> (\<exists>m. fst (makeAssignments (\<lambda>_. 0) [''a'', ''b'', ''c''] Map.empty 0) = Inr m)
   \<and> snd (makeAssignments (\<lambda>_. 0) [''a'', ''b'', ''c''] Map.empty 0) = 2"
proof -
  have 1: "fst (makeAssignments (\<lambda>_. 0) [''Alice''] Map.empty 0) = Inl Infeasible
   \<and> snd (makeAssignments (\<lambda>_. 0) [''Alice''] Map.empty 0) = 0"
    using makeAssignments_attempt_budget[of "\<lambda>_. 0" "[''Alice'']" Map.empty 0]
    by (auto simp: attempt_single split: sum.splits)
  let ?r = "makeAssignments (\<lambda>_. 0) [''a'', ''b'', ''c''] Map.empty 0"
  have some: "fst (attempt (\<lambda>_. 0) [''a'', ''b'', ''c''] Map.empty q) \<noteq> None" for q
    by (simp add: attempt_abc)
  have 2: "(\<exists>m. fst ?r = Inr m) \<and> snd ?r = 2"
  proof (cases "fst ?r")
    case (Inl e)
    then have "\<forall>i<1000. fst (attempt (\<lambda>_. 0) [''a'', ''b'', ''c''] Map.empty
                 (0 + i * (length [''a'', ''b'', ''c''] - 1))) = None"
      using makeAssignments_attempt_budget[of "\<lambda>_. 0" "[''a'', ''b'', ''c'']" Map.empty 0]
      by simp
    then have "fst (attempt (\<lambda>_. 0) [''a'', ''b'', ''c''] Map.empty
                 (0 + 0 * (length [''a'', ''b'', ''c''] - 1))) = None"
      by (rule allE[of _ 0]) simp
    then show ?thesis using some by blast
  next
    case (Inr m)
    then obtain a where a: "a < 1000"
      "\<forall>i<a. fst (attempt (\<lambda>_. 0) [''a'', ''b'', ''c''] Map.empty
                 (0 + i * (length [''a'', ''b'', ''c''] - 1))) = None"
      "snd ?r = 0 + (a + 1) * (length [''a'', ''b'', ''c''] - 1)"
      using makeAssignments_attempt_budget[of "\<lambda>_. 0" "[''a'', ''b'', ''c'']" Map.empty 0]
      by auto
    have "a = 0"
    proof (rule ccontr)
      assume "a \<noteq> 0"
      then have "0 < a" by simp
      with a(2) have "fst (attempt (\<lambda>_. 0) [''a'', ''b'', ''c''] Map.empty
                 (0 + 0 * (length [''a'', ''b'', ''c''] - 1))) = None"
        by blast
      then show False using some by blast
    qed
    then show ?thesis using Inr a(3) by simp
  qed
  from 1 2 show ?thesis by simp
qed







subsection \<open>The repair pass\<close>

lemma build_loop_False_pair:
  assumes "i \<in> set is" "\<not> validatePair (names ! i) (shuffled ! i) excl"
  shows "\<not> fst (build_loop names shuffled excl m is)"
proof
  assume "fst (build_loop names shuffled excl m is)"
  then have "build_loop names shuffled excl m is = (True, snd (build_loop names shuffled excl m is))"
    by (simp add: prod_eq_iff)
  from build_loop_pairs[OF this] assms show False by blast
qed

text \<open>
  C2 (amended).  In each attempt, when the loop that fills the mapping finds a pairing
  that \<^const>\<open>validatePair\<close> rejects (a self-pairing or an excluded recipient), the attempt
  is abandoned at once by \<^verbatim>\<open>if (!ok) continue\<close>: the attempt yields no mapping, whatever
  the repair pass could have made of the candidate.  Here \<open>shuffled0\<close> is the result of
  the shuffle and the pairing is read after the swaps that remove fixed points.
\<close>
theorem attempt_abandoned_without_repair:
  assumes "i < length names"
    and "\<not> validatePair (names ! i) (unfix_loop names [0..<length names] shuffled0 ! i) excl"
  shows "try_shuffled names excl shuffled0 = None"
proof -
  have "i \<in> set [0..<length names]" using assms(1) by simp
  from build_loop_False_pair[OF this assms(2)]
  have "\<not> fst (candidate names excl shuffled0)" by (simp add: candidate_def)
  then show ?thesis by (simp add: try_shuffled_eq)
qed

theorem attempt_abandoned_without_repair_witness:
  "(0::nat) < length [''a'', ''b'', ''c'', ''d'']
   \<and> \<not> validatePair ([''a'', ''b'', ''c'', ''d''] ! 0)
         (unfix_loop [''a'', ''b'', ''c'', ''d''] [0..<length [''a'', ''b'', ''c'', ''d'']]
            [''b'', ''a'', ''d'', ''c''] ! 0) [''a'' \<mapsto> [''b'']]
   \<and> try_shuffled [''a'', ''b'', ''c'', ''d''] [''a'' \<mapsto> [''b'']] [''b'', ''a'', ''d'', ''c''] = None"
proof -
  have l: "(0::nat) < length [''a'', ''b'', ''c'', ''d'']" by simp
  have v: "\<not> validatePair ([''a'', ''b'', ''c'', ''d''] ! 0)
         (unfix_loop [''a'', ''b'', ''c'', ''d''] [0..<length [''a'', ''b'', ''c'', ''d'']]
            [''b'', ''a'', ''d'', ''c''] ! 0) [''a'' \<mapsto> [''b'']]"
    by (simp add: upt_rec validatePair_def banned_def exclusions_of_def)
  from attempt_abandoned_without_repair[OF l v] l v show ?thesis by simp
qed

lemma shuffle_abcd:
  "shuffle (\<lambda>k. if k = 0 then 1 / 2 else if k = 1 then 3 / 4 else 0)
     [''a'', ''b'', ''c'', ''d''] 0 = ([''b'', ''a'', ''d'', ''c''], 3)"
  by (simp add: shuffle_def swap_at_def rand_index_def upt_rec)

lemma shuffle_abcd_later:
  "3 \<le> q \<Longrightarrow> shuffle (\<lambda>k. if k = 0 then 1 / 2 else if k = 1 then 3 / 4 else 0)
     [''a'', ''b'', ''c'', ''d''] q = ([''b'', ''c'', ''d'', ''a''], q + 3)"
  by (simp add: shuffle_def swap_at_def rand_index_def upt_rec)

lemma try_abcd:
  "try_shuffled [''a'', ''b'', ''c'', ''d''] [''a'' \<mapsto> [''b'']] [''b'', ''a'', ''d'', ''c''] = None"
  "try_shuffled [''a'', ''b'', ''c'', ''d''] [''a'' \<mapsto> [''b'']] [''b'', ''c'', ''d'', ''a''] = None"
  by (simp_all add: try_shuffled_def upt_rec swap_at_def validatePair_def banned_def
        exclusions_of_def Let_def)

lemma repair_abcd:
  "fixExclusions [''a'' \<mapsto> ''b'', ''b'' \<mapsto> ''a'', ''c'' \<mapsto> ''d'', ''d'' \<mapsto> ''c'']
     [''a'', ''b'', ''c'', ''d''] [''a'' \<mapsto> [''b'']]
   = (True, [''a'' \<mapsto> ''d'', ''b'' \<mapsto> ''a'', ''c'' \<mapsto> ''b'', ''d'' \<mapsto> ''c''])"
  by (simp add: fixExclusions_def upt_rec isBanned_def banned_def exclusions_of_def truthy_def
        Let_def fun_upd_twist)

lemma valid_abcd:
  "validateAssignments [''a'' \<mapsto> ''d'', ''b'' \<mapsto> ''a'', ''c'' \<mapsto> ''b'', ''d'' \<mapsto> ''c'']
     [''a'', ''b'', ''c'', ''d''] [''a'' \<mapsto> [''b'']]"
  by (simp add: validateAssignments_def banned_def exclusions_of_def)

lemma makeAssignments_all_fail_at:
  assumes "\<And>i. i < 1000 \<Longrightarrow> fst (attempt rnd names excl (p + i * (length names - 1))) = None"
  shows "makeAssignments rnd names excl p = (Inl Infeasible, p + 1000 * (length names - 1))"
proof (cases "fst (makeAssignments rnd names excl p)")
  case (Inr m)
  then obtain a where "a < 1000"
    "fst (attempt rnd names excl (p + a * (length names - 1))) = Some m"
    using makeAssignments_loop_run[of 0 rnd names excl p] by (auto simp: makeAssignments_def)
  with assms[of a] show ?thesis by simp
next
  case (Inl e)
  then show ?thesis
    using makeAssignments_loop_run[of 0 rnd names excl p]
    by (simp add: makeAssignments_def prod_eq_iff)
qed

lemma attempt_abcd:
  "q = 0 \<or> 3 \<le> q \<Longrightarrow>
   fst (attempt (\<lambda>k. if k = 0 then 1 / 2 else if k = 1 then 3 / 4 else 0)
          [''a'', ''b'', ''c'', ''d''] [''a'' \<mapsto> [''b'']] q) = None"
  using shuffle_abcd shuffle_abcd_later[of q]
  by (auto simp: attempt_def try_abcd)

text \<open>
  A candidate that the repair pass would mend but that is abandoned: for the roster
  \<open>a, b, c, d\<close> where \<open>a\<close> excludes \<open>b\<close>, the random numbers 1/2, 3/4, 0 shuffle the
  roster to \<open>b, a, d, c\<close>.  The pairing of \<open>a\<close> with \<open>b\<close> is rejected;
  \<^const>\<open>fixExclusions\<close> on the candidate swaps the recipients of \<open>a\<close> and \<open>c\<close> and returns
  true, and the result passes \<^const>\<open>validateAssignments\<close>; yet the attempt yields nothing,
  and with random numbers 0 from then on the generator fails after its 1000 attempts.
\<close>

theorem repairable_candidate_counterexample:
  "shuffle (\<lambda>k. if k = 0 then 1 / 2 else if k = 1 then 3 / 4 else 0)
     [''a'', ''b'', ''c'', ''d''] 0 = ([''b'', ''a'', ''d'', ''c''], 3)
   \<and> \<not> validatePair ''a'' ''b'' [''a'' \<mapsto> [''b'']]
   \<and> fixExclusions [''a'' \<mapsto> ''b'', ''b'' \<mapsto> ''a'', ''c'' \<mapsto> ''d'', ''d'' \<mapsto> ''c'']
        [''a'', ''b'', ''c'', ''d''] [''a'' \<mapsto> [''b'']]
      = (True, [''a'' \<mapsto> ''d'', ''b'' \<mapsto> ''a'', ''c'' \<mapsto> ''b'', ''d'' \<mapsto> ''c''])
   \<and> validateAssignments [''a'' \<mapsto> ''d'', ''b'' \<mapsto> ''a'', ''c'' \<mapsto> ''b'', ''d'' \<mapsto> ''c'']
        [''a'', ''b'', ''c'', ''d''] [''a'' \<mapsto> [''b'']]
   \<and> try_shuffled [''a'', ''b'', ''c'', ''d''] [''a'' \<mapsto> [''b'']]
        [''b'', ''a'', ''d'', ''c''] = None
   \<and> makeAssignments (\<lambda>k. if k = 0 then 1 / 2 else if k = 1 then 3 / 4 else 0)
        [''a'', ''b'', ''c'', ''d''] [''a'' \<mapsto> [''b'']] 0 = (Inl Infeasible, 3000)"
proof -
  have "makeAssignments (\<lambda>k. if k = 0 then 1 / 2 else if k = 1 then 3 / 4 else 0)
        [''a'', ''b'', ''c'', ''d''] [''a'' \<mapsto> [''b'']] 0
        = (Inl Infeasible, 0 + 1000 * (length [''a'', ''b'', ''c'', ''d''] - 1))"
  proof (rule makeAssignments_all_fail_at)
    fix i :: nat
    have "0 + i * (length [''a'', ''b'', ''c'', ''d''] - 1) = 0
        \<or> 3 \<le> 0 + i * (length [''a'', ''b'', ''c'', ''d''] - 1)"
      by (cases i) simp_all
    then show "fst (attempt (\<lambda>k. if k = 0 then 1 / 2 else if k = 1 then 3 / 4 else 0)
          [''a'', ''b'', ''c'', ''d''] [''a'' \<mapsto> [''b'']]
          (0 + i * (length [''a'', ''b'', ''c'', ''d''] - 1))) = None"
      by (rule attempt_abcd)
  qed
  then show ?thesis
    using shuffle_abcd repair_abcd valid_abcd try_abcd(1)
    by (simp add: validatePair_def banned_def exclusions_of_def)
qed

lemma try_shuffled_no_repair_eq:
  "try_shuffled_no_repair names excl shuffled0 = try_shuffled names excl shuffled0"
  by (simp add: try_shuffled_eq try_shuffled_no_repair_def candidate_def split_beta Let_def)

lemma attempt_no_repair_eq: "attempt_no_repair rnd names excl p = attempt rnd names excl p"
  by (simp add: attempt_no_repair_def attempt_def try_shuffled_no_repair_eq)

lemma makeAssignments_no_repair_loop_eq:
  "makeAssignments_no_repair_loop rnd names excl k p = makeAssignments_loop rnd names excl k p"
proof (induction rnd names excl k p rule: makeAssignments_loop.induct)
  case (1 rnd names excl k p)
  show ?case
  proof (cases "k < 1000")
    case False
    then show ?thesis
      by (simp add: makeAssignments_loop.simps[of rnd names excl k p]
            makeAssignments_no_repair_loop.simps[of rnd names excl k p])
  next
    case True
    obtain r p' where a: "attempt rnd names excl p = (r, p')" by (cases "attempt rnd names excl p")
    show ?thesis
    proof (cases r)
      case None
      from "1.IH"[OF True a[symmetric] None] True a None show ?thesis
        by (simp add: makeAssignments_loop.simps[of rnd names excl k p]
              makeAssignments_no_repair_loop.simps[of rnd names excl k p] attempt_no_repair_eq)
    next
      case (Some m)
      with True a show ?thesis
        by (simp add: makeAssignments_loop.simps[of rnd names excl k p]
              makeAssignments_no_repair_loop.simps[of rnd names excl k p] attempt_no_repair_eq)
    qed
  qed
qed

lemma candidate_pairs:
  assumes "candidate names excl shuffled0 = (True, m)"
  shows "\<forall>g\<in>set names. \<exists>r. m g = Some r \<and> validatePair g r excl"
  using assms build_loop_candidate(1) by (simp add: candidate_def)

lemma valid_pairs_no_swap:
  assumes "\<forall>g\<in>set names. \<exists>r. m g = Some r \<and> validatePair g r excl"
  shows "\<forall>i<length names. \<not> (isBanned excl (names ! i) (m (names ! i))
                               \<or> Some (names ! i) = m (names ! i))"
proof (intro allI impI)
  fix i assume "i < length names"
  then have "names ! i \<in> set names" by simp
  with assms obtain r where "m (names ! i) = Some r" "validatePair (names ! i) r excl" by blast
  then show "\<not> (isBanned excl (names ! i) (m (names ! i)) \<or> Some (names ! i) = m (names ! i))"
    by (auto simp: isBanned_def validatePair_def split: if_splits)
qed

lemma valid_pairs_fixed_iff:
  assumes "\<forall>g\<in>set names. \<exists>r. m g = Some r \<and> validatePair g r excl"
  shows "list_all (\<lambda>name. truthy (m name) \<and> m name \<noteq> Some name) names
           \<longleftrightarrow> (\<forall>g\<in>set names. m g \<noteq> Some [])"
proof -
  have "truthy (m g) \<and> m g \<noteq> Some g \<longleftrightarrow> m g \<noteq> Some []" if "g \<in> set names" for g
  proof -
    from assms that obtain r where "m g = Some r" "validatePair g r excl" by blast
    then show ?thesis by (auto simp: truthy_def validatePair_def split: if_splits)
  qed
  then show ?thesis by (auto simp: list_all_iff)
qed

text \<open>
  C9 (amended).  Within \<^const>\<open>makeAssignments\<close> the repair pass is reached only with a
  candidate mapping in which every participant has a recipient that passes
  \<^const>\<open>validatePair\<close>.  On every such mapping \<^const>\<open>fixExclusions\<close> finds no giver to
  repair, so it performs no swap and leaves the mapping unchanged, and it returns true
  exactly when no participant has the empty string as recipient.  In every case
  \<^const>\<open>makeAssignments\<close> equals the same algorithm with the repair pass removed.
\<close>
theorem repair_pass_is_redundant:
  "(candidate names excl shuffled0 = (True, m) \<longrightarrow>
      (\<forall>g\<in>set names. \<exists>r. m g = Some r \<and> validatePair g r excl))
   \<and> ((\<forall>g\<in>set names. \<exists>r. m' g = Some r \<and> validatePair g r excl) \<longrightarrow>
        (\<forall>i<length names. \<not> (isBanned excl (names ! i) (m' (names ! i))
                               \<or> Some (names ! i) = m' (names ! i)))
        \<and> snd (fixExclusions m' names excl) = m'
        \<and> (fst (fixExclusions m' names excl) \<longleftrightarrow> (\<forall>g\<in>set names. m' g \<noteq> Some [])))
   \<and> makeAssignments rnd names excl p = makeAssignments_no_repair rnd names excl p"
proof (intro conjI impI)
  assume "candidate names excl shuffled0 = (True, m)"
  then show "\<forall>g\<in>set names. \<exists>r. m g = Some r \<and> validatePair g r excl"
    by (rule candidate_pairs)
next
  assume a: "\<forall>g\<in>set names. \<exists>r. m' g = Some r \<and> validatePair g r excl"
  show "\<forall>i<length names. \<not> (isBanned excl (names ! i) (m' (names ! i))
                               \<or> Some (names ! i) = m' (names ! i))"
    using a by (rule valid_pairs_no_swap)
  show "snd (fixExclusions m' names excl) = m'"
    by (simp add: fixExclusions_valid[OF a])
  show "fst (fixExclusions m' names excl) \<longleftrightarrow> (\<forall>g\<in>set names. m' g \<noteq> Some [])"
    by (simp add: fixExclusions_valid[OF a] valid_pairs_fixed_iff[OF a])
next
  show "makeAssignments rnd names excl p = makeAssignments_no_repair rnd names excl p"
    by (simp add: makeAssignments_def makeAssignments_no_repair_def
          makeAssignments_no_repair_loop_eq)
qed

lemma candidate_abc:
  "candidate [''a'', ''b'', ''c''] Map.empty [''b'', ''c'', ''a'']
     = (True, [''a'' \<mapsto> ''b'', ''b'' \<mapsto> ''c'', ''c'' \<mapsto> ''a''])"
  by (simp add: candidate_def upt_rec validatePair_def banned_def exclusions_of_def Let_def)

theorem repair_pass_is_redundant_witness:
  "candidate [''a'', ''b'', ''c''] Map.empty [''b'', ''c'', ''a'']
     = (True, [''a'' \<mapsto> ''b'', ''b'' \<mapsto> ''c'', ''c'' \<mapsto> ''a''])
   \<and> fixExclusions [''a'' \<mapsto> ''b'', ''b'' \<mapsto> ''c'', ''c'' \<mapsto> ''a''] [''a'', ''b'', ''c''] Map.empty
     = (True, [''a'' \<mapsto> ''b'', ''b'' \<mapsto> ''c'', ''c'' \<mapsto> ''a''])"
proof -
  let ?m = "[''a'' \<mapsto> ''b'', ''b'' \<mapsto> ''c'', ''c'' \<mapsto> ''a'']"
  let ?names = "[''a'', ''b'', ''c'']"
  note r = repair_pass_is_redundant[of ?names Map.empty "[''b'', ''c'', ''a'']" ?m ?m "\<lambda>_. 0" 0]
  have v: "\<forall>g\<in>set ?names. \<exists>r. ?m g = Some r \<and> validatePair g r Map.empty"
    using r candidate_abc by blast
  then have "snd (fixExclusions ?m ?names Map.empty) = ?m"
    and "fst (fixExclusions ?m ?names Map.empty) \<longleftrightarrow> (\<forall>g\<in>set ?names. ?m g \<noteq> Some [])"
    using r by blast+
  then have "fixExclusions ?m ?names Map.empty = (True, ?m)"
    by (simp add: prod_eq_iff)
  then show ?thesis using candidate_abc by simp
qed

text \<open>A candidate all of whose pairings pass \<^const>\<open>validatePair\<close> and on which
  \<^const>\<open>fixExclusions\<close> returns false: the roster of the empty string and \<open>a\<close>.\<close>

theorem repair_rejects_empty_name_counterexample:
  "candidate ['''', ''a''] Map.empty [''a'', ''''] = (True, ['''' \<mapsto> ''a'', ''a'' \<mapsto> ''''])
   \<and> validatePair '''' ''a'' Map.empty \<and> validatePair ''a'' '''' Map.empty
   \<and> fixExclusions ['''' \<mapsto> ''a'', ''a'' \<mapsto> ''''] ['''', ''a''] Map.empty
       = (False, ['''' \<mapsto> ''a'', ''a'' \<mapsto> ''''])"
  by (simp add: candidate_def fixExclusions_def upt_rec validatePair_def banned_def
        exclusions_of_def isBanned_def truthy_def Let_def)





lemma cyclic6_values:
  "map (cyclic_shift PARTICIPANTS) PARTICIPANTS
     = [Some ''Bob'', Some ''Charlie'', Some ''Danielle'', Some ''Erin'', Some ''Frank'',
        Some ''Alice'']"
  by (simp add: cyclic_shift_def PARTICIPANTS_def)

section \<open>The claims about the draw request\<close>

subsection \<open>Every participant has a flag\<close>


lemma revealed_total_iff: "revealed_total st \<longleftrightarrow> set (participants st) \<subseteq> fst ` set (revealed st)"
  by (auto simp: revealed_total_def map_of_eq_None_iff)


lemma fill_revealed_keys: "fst ` set rv \<subseteq> fst ` set (fill_revealed ps rv)"
proof (induction ps arbitrary: rv)
  case Nil
  then show ?case by simp
next
  case (Cons name rest)
  have "fst ` set (AList.update name (Some False) rv) = insert name (fst ` set rv)"
    using AList.dom_update[of name "Some False" rv] by (simp add: dom_map_of_conv_image_fst)
  then have "fst ` set rv \<subseteq> fst ` set (fill_revealed rest (AList.update name (Some False) rv))"
    using Cons.IH[of "AList.update name (Some False) rv"] by auto
  then show ?case using Cons.IH[of rv] by (auto split: option.splits)
qed

lemma fill_revealed_total: "set ps \<subseteq> fst ` set (fill_revealed ps rv)"
proof (induction ps arbitrary: rv)
  case Nil
  then show ?case by simp
next
  case (Cons name rest)
  show ?case
  proof (cases "\<exists>b. map_of rv name = Some (Some b)")
    case True
    then obtain b where b: "map_of rv name = Some (Some b)" by blast
    then have "name \<in> fst ` set rv" by (metis map_of_eq_None_iff option.distinct(1))
    then have "name \<in> fst ` set (fill_revealed rest rv)" using fill_revealed_keys by blast
    then show ?thesis using b Cons.IH[of rv] by simp
  next
    case False
    let ?rv = "AList.update name (Some False) rv"
    have eq: "fill_revealed (name # rest) rv = fill_revealed rest ?rv"
      using False by (auto split: option.splits)
    have "fst ` set ?rv = insert name (fst ` set rv)"
      using AList.dom_update[of name "Some False" rv] by (simp add: dom_map_of_conv_image_fst)
    then have "name \<in> fst ` set (fill_revealed rest ?rv)" using fill_revealed_keys[of ?rv rest] by auto
    then show ?thesis using eq Cons.IH[of ?rv] by simp
  qed
qed

lemma normalizeState_revealed_total: "revealed_total (normalizeState rawState now)"
proof -
  let ?ps = "raw_participants rawState"
  let ?rv = "fill_revealed ?ps (raw_revealed rawState)"
  have "set ?ps \<subseteq> fst ` set (drop_stale ?ps ?rv)"
  proof
    fix x assume x: "x \<in> set ?ps"
    then obtain v where "(x, v) \<in> set ?rv" using fill_revealed_total[of ?ps] by fastforce
    then have "(x, v) \<in> set (drop_stale ?ps ?rv)" using x by (simp add: drop_stale_def)
    then show "x \<in> fst ` set (drop_stale ?ps ?rv)" by force
  qed
  then show ?thesis
    by (simp add: revealed_total_iff normalizeState_def image_image split_beta)
qed

lemma handleRequest_draw_revealed_total:
  assumes "revealed_total st"
  shows "revealed_total (snd (handleRequest_draw st rd now saveState))"
proof -
  have k: "fst ` set (AList.update k v al) = insert k (fst ` set al)" for k and v :: bool and al
    using AList.dom_update[of k v al] by (simp add: dom_map_of_conv_image_fst)
  show ?thesis
    using assms
    by (auto simp: revealed_total_iff handleRequest_draw_def Let_def k
          split: read_result.splits json_body.splits option.splits)
qed

subsection \<open>The draw\<close>








end
